theory Spec2Isabelle
  imports Complex_Main
begin

section \<open>Python values shared by the embedding\<close>

text \<open>
  Exceptions of the Python source are values of \<open>py_error\<close>; a function that can raise
  returns \<open>py_error + 'a\<close> with \<open>Inl\<close> for the exception.
\<close>

datatype py_error =
  IndexError | KeyError | ZeroDivisionError | OverflowError | AssertionError | ValueError
  | RuntimeError

text \<open>
  A Python \<open>float\<close>: the two infinities, not-a-number and the finite values. Comparisons
  of doubles are exact on the numbers they denote, so a finite double is modelled by the
  real number it denotes; rounding of arithmetic results is not modelled.
\<close>

datatype pyfloat = NaN | NegInf | Finite real | PosInf

fun float_lt :: "pyfloat \<Rightarrow> pyfloat \<Rightarrow> bool" where
  "float_lt NaN _ = False"
| "float_lt _ NaN = False"
| "float_lt _ NegInf = False"
| "float_lt NegInf _ = True"
| "float_lt PosInf _ = False"
| "float_lt (Finite a) (Finite b) = (a < b)"
| "float_lt (Finite a) PosInf = True"

definition float_gt :: "pyfloat \<Rightarrow> pyfloat \<Rightarrow> bool" where
  "float_gt a b = float_lt b a"

fun float_eq :: "pyfloat \<Rightarrow> pyfloat \<Rightarrow> bool" where
  "float_eq NaN _ = False"
| "float_eq _ NaN = False"
| "float_eq a b = (a = b)"


text \<open>Addition of two floats (\<open>+=\<close> on a float field).\<close>

fun float_add :: "pyfloat \<Rightarrow> pyfloat \<Rightarrow> pyfloat" where
  "float_add NaN _ = NaN"
| "float_add _ NaN = NaN"
| "float_add PosInf NegInf = NaN"
| "float_add NegInf PosInf = NaN"
| "float_add PosInf _ = PosInf"
| "float_add _ PosInf = PosInf"
| "float_add NegInf _ = NegInf"
| "float_add _ NegInf = NegInf"
| "float_add (Finite a) (Finite b) = Finite (a + b)"







section \<open>onmt/Trainer.py: EarlyStopping\<close>

datatype PatienceEnum = IMPROVING | DECREASING | STOPPED

text \<open>
  The fields of an \<open>EarlyStopping\<close> object. The trainer and the scorer are collaborators:
  the scorer is a parameter of the call, and what the object asks of the trainer or
  prints is returned as a list of events.
\<close>

record EarlyStopping =
  epochs :: int
  tolerance :: int
  current_tolerance :: int
  best_score :: pyfloat
  status :: PatienceEnum

datatype es_event =
    PrintImproving pyfloat pyfloat
  | DropBestEarlystopping
  | PrintDecreasing int int
  | PrintFinished pyfloat

definition EarlyStopping_init :: "int \<Rightarrow> int \<Rightarrow> EarlyStopping" where
  "EarlyStopping_init tol ep =
     \<lparr>epochs = ep, tolerance = tol, current_tolerance = tol,
      best_score = PosInf, status = IMPROVING\<rparr>"

definition EarlyStopping_call ::
  "('stats \<Rightarrow> pyfloat) \<Rightarrow> EarlyStopping \<Rightarrow> 'stats \<Rightarrow> es_event list \<times> EarlyStopping" where
  "EarlyStopping_call scorer self valid_stats =
     (if float_lt (scorer valid_stats) (best_score self) then
        ([PrintImproving (best_score self) (scorer valid_stats), DropBestEarlystopping],
         self\<lparr>current_tolerance := tolerance self,
              best_score := scorer valid_stats,
              status := IMPROVING\<rparr>)
      else
        (let (out, self1) =
           (if float_gt (scorer valid_stats) (best_score self) then
              (let self0 = self\<lparr>current_tolerance := current_tolerance self - 1\<rparr>
               in (PrintDecreasing (current_tolerance self0) (tolerance self0) #
                     (if current_tolerance self0 = 0
                      then [PrintFinished (best_score self0)] else []),
                   self0))
            else ([], self))
         in (out, self1\<lparr>status := (if current_tolerance self1 > 0
                                    then DECREASING else STOPPED)\<rparr>)))"

definition is_improving :: "EarlyStopping \<Rightarrow> bool" where
  "is_improving self = (status self = IMPROVING)"

definition has_stopped :: "EarlyStopping \<Rightarrow> bool" where
  "has_stopped self = (status self = STOPPED)"

text \<open>
  The entry point on a score: the call with the identity as scorer, keeping the object.
\<close>

definition observe :: "EarlyStopping \<Rightarrow> pyfloat \<Rightarrow> EarlyStopping" where
  "observe self score = snd (EarlyStopping_call (\<lambda>x. x) self score)"

text \<open>
  Feeding a sequence of scores, one per call: the object after the last call, and the
  status and remaining tolerance read after each call.
\<close>

fun feed :: "EarlyStopping \<Rightarrow> pyfloat list \<Rightarrow> EarlyStopping" where
  "feed self [] = self"
| "feed self (x # xs) = feed (observe self x) xs"

fun feed_trace :: "EarlyStopping \<Rightarrow> pyfloat list \<Rightarrow> (PatienceEnum \<times> int) list" where
  "feed_trace self [] = []"
| "feed_trace self (x # xs) =
     (status (observe self x), current_tolerance (observe self x)) #
       feed_trace (observe self x) xs"

text \<open>
  The states a machine constructed with the given tolerance and epochs can be in: the
  constructed one, and the one after a call on any score.
\<close>

inductive es_reachable :: "int \<Rightarrow> int \<Rightarrow> EarlyStopping \<Rightarrow> bool" for tol ep where
  es_init: "es_reachable tol ep (EarlyStopping_init tol ep)"
| es_step: "es_reachable tol ep s \<Longrightarrow> es_reachable tol ep (observe s x)"

text \<open>
  The relation between status and remaining tolerance: stopped exactly when no tolerance
  is left.
\<close>

definition es_inv :: "EarlyStopping \<Rightarrow> bool" where
  "es_inv self = ((status self = STOPPED) = (current_tolerance self \<le> 0))"

section \<open>onmt/Trainer.py and onmt/Loss.py: Statistics\<close>

text \<open>
  The accumulator of onmt/Trainer.py. \<open>start_time\<close> is the clock reading at
  construction, a parameter of the constructor here. The loss is a float, as the loss
  computation delivers it (the default 0 is the float 0.0), and the counts are ints.
\<close>

record Statistics =
  loss :: pyfloat
  n_words :: int
  n_correct :: int
  n_src_words :: int
  n_mt_words :: int
  start_time :: real

definition Statistics_init :: "pyfloat \<Rightarrow> int \<Rightarrow> int \<Rightarrow> real \<Rightarrow> Statistics" where
  "Statistics_init l nw nc now =
     \<lparr>loss = l, n_words = nw, n_correct = nc, n_src_words = 0, n_mt_words = 0,
      start_time = now\<rparr>"

definition update :: "Statistics \<Rightarrow> Statistics \<Rightarrow> Statistics" where
  "update self stat =
     self\<lparr>loss := float_add (loss self) (loss stat),
          n_words := n_words self + n_words stat,
          n_correct := n_correct self + n_correct stat\<rparr>"




text \<open>The accumulator of onmt/Loss.py, which also sums a regularisation term.\<close>

record Loss_Statistics =
  l_loss :: pyfloat
  l_reg :: pyfloat
  l_n_words :: int
  l_n_correct :: int
  l_n_src_words :: int
  l_start_time :: real

definition Loss_Statistics_init ::
  "pyfloat \<Rightarrow> pyfloat \<Rightarrow> int \<Rightarrow> int \<Rightarrow> real \<Rightarrow> Loss_Statistics" where
  "Loss_Statistics_init l r nw nc now =
     \<lparr>l_loss = l, l_reg = r, l_n_words = nw, l_n_correct = nc,
      l_n_src_words = 0, l_start_time = now\<rparr>"

definition Loss_update :: "Loss_Statistics \<Rightarrow> Loss_Statistics \<Rightarrow> Loss_Statistics" where
  "Loss_update self stat =
     self\<lparr>l_loss := float_add (l_loss self) (l_loss stat),
          l_reg := float_add (l_reg self) (l_reg stat),
          l_n_words := l_n_words self + l_n_words stat,
          l_n_correct := l_n_correct self + l_n_correct stat\<rparr>"


section \<open>onmt/Trainer.py: Trainer\<close>

text \<open>
  A batch as the trainer reads it: its sentence count and its target tensor, one row of
  token ids per time step. The source side is only handed to the model.
\<close>

record Batch =
  batch_size :: int
  tgt :: "int list list"

text \<open>
  The model, the optimizer and the loss objects are collaborators. What the trainer asks
  of them is recorded, in order, as events; the model's mode is the flag \<open>training\<close>.
  \<open>Forward b j n\<close> is the model call on rows \<open>j\<close> to \<open>j + n\<close> of the target of \<open>b\<close>;
  \<open>ShardedComputeLoss b j n sh norm\<close> is the call of \<open>train_loss.sharded_compute_loss\<close>
  with window start, window width, shard size and normalization; \<open>ValidBatch b m\<close> is the
  body of the validation loop on \<open>b\<close>, entered with the model's mode \<open>m\<close>.
\<close>

datatype trainer_event =
    SetTrain
  | SetEval
  | ZeroGrad
  | OptimStep
  | Forward Batch int int
  | ShardedComputeLoss Batch int int int int
  | ValidBatch Batch bool

record world =
  training :: bool
  events :: "trainer_event list"

definition emit :: "trainer_event list \<Rightarrow> world \<Rightarrow> world" where
  "emit es w = w\<lparr>events := events w @ es\<rparr>"

definition model_train :: "world \<Rightarrow> world" where
  "model_train w = emit [SetTrain] (w\<lparr>training := True\<rparr>)"

definition model_eval :: "world \<Rightarrow> world" where
  "model_eval w = emit [SetEval] (w\<lparr>training := False\<rparr>)"

record Trainer =
  trunc_size :: int
  shard_size :: int
  data_type :: string
  norm_method :: string
  grad_accum_count :: int
  progress_step :: int
  elmo :: bool

text \<open>
  \<open>Trainer.__init__\<close>: the two assertions, then the model is put in training mode. A
  failed assertion leaves the world as it was and yields no trainer.
\<close>

definition Trainer_init ::
  "int \<Rightarrow> int \<Rightarrow> string \<Rightarrow> string \<Rightarrow> int \<Rightarrow> bool \<Rightarrow> world \<Rightarrow> (py_error + Trainer) \<times> world" where
  "Trainer_init trunc shard dtype nmeth accum el w =
     (let self = \<lparr>trunc_size = trunc, shard_size = shard, data_type = dtype,
                   norm_method = nmeth, grad_accum_count = accum, progress_step = 0,
                   elmo = el\<rparr>
      in if \<not> grad_accum_count self > 0 then (Inl AssertionError, w)
         else if grad_accum_count self > 1 \<and> \<not> trunc_size self = 0
           then (Inl AssertionError, w)
         else (Inr self, model_train w))"

text \<open>
  \<open>Trainer.validate\<close>. The body of the loop (building the features, the model call and
  \<open>valid_loss.monolithic_compute_loss\<close>) is the parameter \<open>body\<close>: it returns the batch's
  statistics or raises. An exception leaves the loop and the function at once.
\<close>

fun validate_loop ::
  "(Batch \<Rightarrow> py_error + Statistics) \<Rightarrow> Batch list \<Rightarrow> Statistics \<Rightarrow> world \<Rightarrow>
   (py_error + Statistics) \<times> world" where
  "validate_loop body [] stats w = (Inr stats, w)"
| "validate_loop body (b # bs) stats w =
     (case body b of
        Inl e \<Rightarrow> (Inl e, emit [ValidBatch b (training w)] w)
      | Inr batch_stats \<Rightarrow>
          validate_loop body bs (update stats batch_stats)
            (emit [ValidBatch b (training w)] w))"

definition validate ::
  "(Batch \<Rightarrow> py_error + Statistics) \<Rightarrow> real \<Rightarrow> Batch list \<Rightarrow> world \<Rightarrow>
   (py_error + Statistics) \<times> world" where
  "validate body now valid_iter w =
     (case validate_loop body valid_iter (Statistics_init (Finite 0) 0 0 now) (model_eval w) of
        (Inl e, w1) \<Rightarrow> (Inl e, w1)
      | (Inr stats, w1) \<Rightarrow> (Inr stats, model_train w1))"

text \<open>
  Python's \<open>range(start, stop, step)\<close> as a list; a zero step raises ValueError.
\<close>

definition py_range :: "int \<Rightarrow> int \<Rightarrow> int \<Rightarrow> py_error + int list" where
  "py_range start stop step =
     (if step = 0 then Inl ValueError
      else if 0 < step then
        Inr (map (\<lambda>i. start + int i * step) [0 ..< nat ((stop - start + step - 1) div step)])
      else
        Inr (map (\<lambda>i. start + int i * step) [0 ..< nat ((start - stop - step - 1) div (- step))]))"

text \<open>
  \<open>Trainer._gradient_accumulation\<close>: the events of one accumulation group, and the
  exception that ended it, if any. The statistics come back from the loss object and
  are not part of the events.
\<close>

definition window_events :: "Trainer \<Rightarrow> int \<Rightarrow> Batch \<Rightarrow> int \<Rightarrow> int \<Rightarrow> trainer_event list" where
  "window_events self normalization batch trunc j =
     (if grad_accum_count self = 1 then [ZeroGrad] else []) @
     [Forward batch j trunc,
      ShardedComputeLoss batch j trunc (shard_size self) normalization] @
     (if grad_accum_count self = 1 then [OptimStep] else [])"

fun batches_events ::
  "Trainer \<Rightarrow> int \<Rightarrow> Batch list \<Rightarrow> trainer_event list \<times> py_error option" where
  "batches_events self normalization [] = ([], None)"
| "batches_events self normalization (batch # rest) =
     (let target_size = int (length (tgt batch));
          trunc = (if trunc_size self \<noteq> 0 then trunc_size self else target_size)
      in case py_range 0 (target_size - 1) trunc of
           Inl e \<Rightarrow> ([], Some e)
         | Inr js \<Rightarrow>
             (let (es, err) = batches_events self normalization rest
              in (concat (map (window_events self normalization batch trunc) js) @ es, err)))"

definition gradient_accumulation ::
  "Trainer \<Rightarrow> Batch list \<Rightarrow> int \<Rightarrow> trainer_event list \<times> py_error option" where
  "gradient_accumulation self true_batchs normalization =
     (let (es, err) = batches_events self normalization true_batchs;
          pre = (if grad_accum_count self > 1 then [ZeroGrad] else [])
      in case err of
           Some e \<Rightarrow> (pre @ es, Some e)
         | None \<Rightarrow> (pre @ es @ (if grad_accum_count self > 1 then [OptimStep] else []), None))"

text \<open>
  \<open>Trainer.train\<close>: the loop that groups the batches and sums the normalization of a
  group. \<open>padding_idx\<close> is \<open>train_loss.padding_idx\<close>. The result is the list of the calls
  of \<open>_gradient_accumulation\<close>, each with its batches and its normalization; reporting
  and statistics are left out.
\<close>

definition num_tokens :: "int \<Rightarrow> Batch \<Rightarrow> int" where
  "num_tokens padding_idx batch =
     int (length (filter (\<lambda>t. t \<noteq> padding_idx) (concat (drop 1 (tgt batch)))))"

record train_state =
  true_batchs :: "Batch list"
  accum :: int
  normalization :: int
  calls :: "(Batch list \<times> int) list"

definition train_step :: "Trainer \<Rightarrow> int \<Rightarrow> train_state \<Rightarrow> Batch \<Rightarrow> train_state" where
  "train_step self padding_idx st batch =
     (let st1 = st\<lparr>true_batchs := true_batchs st @ [batch], accum := accum st + 1\<rparr>;
          st2 = (if norm_method self = ''tokens''
                 then st1\<lparr>normalization := normalization st1 + num_tokens padding_idx batch\<rparr>
                 else st1\<lparr>normalization := normalization st1 + batch_size batch\<rparr>)
      in if accum st2 = grad_accum_count self
         then st2\<lparr>calls := calls st2 @ [(true_batchs st2, normalization st2)],
                  true_batchs := [], accum := 0, normalization := 0\<rparr>
         else st2)"

definition Trainer_train :: "Trainer \<Rightarrow> int \<Rightarrow> Batch list \<Rightarrow> (Batch list \<times> int) list" where
  "Trainer_train self padding_idx train_iter =
     (let st = foldl (train_step self padding_idx)
                 \<lparr>true_batchs = [], accum = 0, normalization = 0, calls = []\<rparr> train_iter
      in if length (true_batchs st) > 0
         then calls st @ [(true_batchs st, normalization st)]
         else calls st)"

section \<open>onmt/Loss.py: shardVariables\<close>

text \<open>
  A value of the variable set: a plain tensor, or an autograd \<open>Variable\<close> with its
  \<open>requires_grad\<close> and \<open>volatile\<close> flags. Only the first axis matters to the sharding, so
  a tensor is the list of its slices along that axis (\<open>rows\<close>), and \<open>size(0)\<close> is the
  length of the list.
\<close>

datatype 'a pyvalue =
    Tensor (rows: "'a list")
  | Variable (rows: "'a list") (requires_grad: bool) (volatile: bool)

type_synonym 'a pydict = "string \<rightharpoonup> 'a pyvalue"

fun with_rows :: "'a list \<Rightarrow> 'a pyvalue \<Rightarrow> 'a pyvalue" where
  "with_rows xs (Tensor _) = Tensor xs"
| "with_rows xs (Variable _ g vol) = Variable xs g vol"

definition size0 :: "'a pyvalue \<Rightarrow> nat" where
  "size0 v = length (rows v)"

text \<open>\<open>v.narrow(0, start, len)\<close>: the slice of \<open>len\<close> rows from row \<open>start\<close>.\<close>

definition narrow :: "'a pyvalue \<Rightarrow> nat \<Rightarrow> nat \<Rightarrow> 'a pyvalue" where
  "narrow v start len = with_rows (take len (drop start (rows v))) v"

text \<open>
  \<open>torch.split(tensor, split_size)\<close> of the library, along axis 0, for a positive
  \<open>split_size\<close>: \<open>num_splits\<close> slices, all of width \<open>split_size\<close> but the last, which
  takes what is left.
\<close>

definition torch_split :: "'a pyvalue \<Rightarrow> nat \<Rightarrow> 'a pyvalue list" where
  "torch_split tensor split_size =
     (let dim_size = size0 tensor;
          num_splits = (dim_size + split_size - 1) div split_size;
          last_split_size = split_size - (split_size * num_splits - dim_size)
      in map (\<lambda>i. narrow tensor (i * split_size)
                     (if i < num_splits - 1 then split_size else last_split_size))
           [0 ..< num_splits])"

text \<open>
  The copy made of a gradient-bearing variable: a fresh \<open>Variable\<close> on the same data;
  every other value is taken as it is.
\<close>

fun make_dummy :: "bool \<Rightarrow> 'a pyvalue \<Rightarrow> 'a pyvalue" where
  "make_dummy ev (Variable d g vol) = (if g then Variable d (\<not> ev) ev else Variable d g vol)"
| "make_dummy ev (Tensor d) = Tensor d"

text \<open>
  The inner loop \<open>for i, v in enumerate(splits): shards[i][k] = v\<close>; an index past the
  end of \<open>shards\<close> raises IndexError.
\<close>

fun assign_splits ::
  "string \<Rightarrow> nat \<Rightarrow> 'a pyvalue list \<Rightarrow> 'a pydict list \<Rightarrow> py_error + 'a pydict list" where
  "assign_splits k i [] shards = Inr shards"
| "assign_splits k i (v # vs) shards =
     (if i < length shards
      then assign_splits k (Suc i) vs (shards[i := (shards ! i)(k \<mapsto> v)])
      else Inl IndexError)"

text \<open>The outer loop \<open>for k in variables\<close>, over the items of the dict in its order.\<close>

fun shard_loop ::
  "(string \<times> 'a pyvalue) list \<Rightarrow> nat \<Rightarrow> bool \<Rightarrow> 'a pydict list \<times> 'a pydict \<Rightarrow>
   py_error + ('a pydict list \<times> 'a pydict)" where
  "shard_loop [] batches ev st = Inr st"
| "shard_loop ((k, v) # rest) batches ev (shards, dummies) =
     (case assign_splits k 0 (torch_split (make_dummy ev v) batches) shards of
        Inl e \<Rightarrow> Inl e
      | Inr shards' \<Rightarrow>
          shard_loop rest batches ev (shards', dummies(k \<mapsto> make_dummy ev v)))"

text \<open>
  \<open>shardVariables(variables, batches, eval)\<close>. The dict \<open>variables\<close> is the list of its
  items in iteration order, with distinct keys. Taking item 0 of an empty dict raises
  IndexError, and a zero \<open>batches\<close> raises ZeroDivisionError in the floor division.
\<close>

definition shardVariables ::
  "(string \<times> 'a pyvalue) list \<Rightarrow> nat \<Rightarrow> bool \<Rightarrow> py_error + ('a pydict list \<times> 'a pydict)" where
  "shardVariables variables batches ev =
     (case variables of
        [] \<Rightarrow> Inl IndexError
      | (k0, v0) # _ \<Rightarrow>
          if batches = 0 then Inl ZeroDivisionError
          else
            (let n_shards = ((int (size0 v0) - 1) div int batches) + 1
             in shard_loop variables batches ev
                  (replicate (nat n_shards) Map.empty, Map.empty)))"

section \<open>onmt/Loss.py: MemoryEfficientLoss\<close>

record MemoryEfficientLoss =
  eval_mode :: bool
  max_batches :: nat
  copy_loss :: bool
  coverage_loss :: bool
  exhaustion_loss :: bool
  fertility_loss :: bool

record 'a Loss_Batch =
  batchSize :: int
  l_tgt :: "'a pyvalue"
  alignment :: "'a pyvalue"

text \<open>The slice \<open>v[1:]\<close> along axis 0.\<close>

definition from_1 :: "'a pyvalue \<Rightarrow> 'a pyvalue" where
  "from_1 v = with_rows (drop 1 (rows v)) v"

text \<open>
  \<open>tensor.div(n)\<close> on a scalar float tensor: IEEE division, which never raises.
\<close>

fun tensor_div :: "pyfloat \<Rightarrow> int \<Rightarrow> pyfloat" where
  "tensor_div NaN n = NaN"
| "tensor_div PosInf n = (if 0 \<le> n then PosInf else NegInf)"
| "tensor_div NegInf n = (if 0 \<le> n then NegInf else PosInf)"
| "tensor_div (Finite a) n =
     (if n = 0 then (if 0 < a then PosInf else if a < 0 then NegInf else NaN)
      else Finite (a / real_of_int n))"

text \<open>
  The dict \<open>original\<close> that \<open>loss\<close> builds, in insertion order; a missing key of \<open>attns\<close>
  raises KeyError.
\<close>

definition add_from ::
  "'a pydict \<Rightarrow> string \<Rightarrow> string \<Rightarrow> (string \<times> 'a pyvalue) list \<Rightarrow>
   py_error + (string \<times> 'a pyvalue) list" where
  "add_from attns key src original =
     (case attns src of None \<Rightarrow> Inl KeyError | Some v \<Rightarrow> Inr (original @ [(key, v)]))"

definition and_then :: "py_error + 'a \<Rightarrow> ('a \<Rightarrow> py_error + 'b) \<Rightarrow> py_error + 'b" where
  "and_then r f = (case r of Inl e \<Rightarrow> Inl e | Inr x \<Rightarrow> f x)"

definition build_original ::
  "MemoryEfficientLoss \<Rightarrow> 'a Loss_Batch \<Rightarrow> 'a pyvalue \<Rightarrow> 'a pydict \<Rightarrow>
   py_error + (string \<times> 'a pyvalue) list" where
  "build_original self batch outputs attns =
     and_then
       (if coverage_loss self
        then add_from attns ''coverage_t'' ''coverage''
               [(''out_t'', outputs), (''targ_t'', from_1 (l_tgt batch))]
        else Inr [(''out_t'', outputs), (''targ_t'', from_1 (l_tgt batch))])
       (\<lambda>d1. and_then
          (if copy_loss self
           then and_then (add_from attns ''attn_t'' ''copy'' d1)
                  (\<lambda>d. Inr (d @ [(''align_t'', from_1 (alignment batch))]))
           else Inr d1)
          (\<lambda>d2. and_then
             (if exhaustion_loss self
              then add_from attns ''upper_bounds_t'' ''upper_bounds'' d2
              else Inr d2)
             (\<lambda>d3.
                if fertility_loss self
                then and_then
                       (add_from attns ''true_fertility_vals_t'' ''true_fertility_vals'' d3)
                       (add_from attns ''predicted_fertility_vals_t''
                          ''predicted_fertility_vals'')
                else Inr d3)))"

text \<open>The keys the loop body reads from a shard, in the order it reads them.\<close>

definition shard_reads :: "MemoryEfficientLoss \<Rightarrow> 'a pydict \<Rightarrow> string list" where
  "shard_reads self s =
     (if \<not> copy_loss self then [''out_t'', ''targ_t'']
      else [''out_t'', ''targ_t'', ''attn_t'', ''align_t'']) @
     (if coverage_loss self then [''coverage_t'', ''attn_t''] else []) @
     (if exhaustion_loss self then [''upper_bounds_t''] else []) @
     (if fertility_loss self \<and> s ''predicted_fertility_vals_t'' \<noteq> None
      then [''predicted_fertility_vals_t'', ''true_fertility_vals_t''] else [])"

text \<open>
  The loop over the shards. The generator, the criterion, the auxiliary terms and the
  scoring are the parameter \<open>crit\<close>, which gives a shard's loss \<open>loss_t\<close> and its
  statistics. The calls of \<open>backward\<close> are recorded by the value they are called on.
\<close>

fun loss_loop ::
  "MemoryEfficientLoss \<Rightarrow> int \<Rightarrow> ('a pydict \<Rightarrow> pyfloat \<times> Loss_Statistics) \<Rightarrow>
   'a pydict list \<Rightarrow> Loss_Statistics \<times> pyfloat list \<Rightarrow>
   py_error + (Loss_Statistics \<times> pyfloat list)" where
  "loss_loop self bsz crit [] acc = Inr acc"
| "loss_loop self bsz crit (s # ss) (stats, backward) =
     (if list_ex (\<lambda>k. s k = None) (shard_reads self s) then Inl KeyError
      else
        (let (loss_t, shard_stats) = crit s
         in loss_loop self bsz crit ss
              (Loss_update stats shard_stats,
               if \<not> eval_mode self then backward @ [tensor_div loss_t bsz]
               else backward)))"

text \<open>
  \<open>MemoryEfficientLoss.loss\<close>: the merged statistics and the backward calls. The
  gradients collected afterwards belong to autograd and are not modelled.
\<close>

definition MemoryEfficientLoss_loss ::
  "MemoryEfficientLoss \<Rightarrow> ('a pydict \<Rightarrow> pyfloat \<times> Loss_Statistics) \<Rightarrow> real \<Rightarrow>
   'a Loss_Batch \<Rightarrow> 'a pyvalue \<Rightarrow> 'a pydict \<Rightarrow>
   py_error + (Loss_Statistics \<times> pyfloat list)" where
  "MemoryEfficientLoss_loss self crit now batch outputs attns =
     (case build_original self batch outputs attns of
        Inl e \<Rightarrow> Inl e
      | Inr original \<Rightarrow>
          (case shardVariables original (max_batches self) (eval_mode self) of
             Inl e \<Rightarrow> Inl e
           | Inr (shards, dummies) \<Rightarrow>
               loss_loop self (batchSize batch) crit shards
                 (Loss_Statistics_init (Finite 0) (Finite 0) 0 0 now, [])))"

section \<open>Notions used to state the properties of the loss and the trainer\<close>

text \<open>
  A shard list read at given keys: for each shard and key, the rows stored there, if any.
\<close>

definition shards_view ::
  "string list \<Rightarrow> py_error + ('a pydict list \<times> 'a pydict) \<Rightarrow> py_error + 'a list option list list" where
  "shards_view ks r =
     (case r of Inl e \<Rightarrow> Inl e
      | Inr (sh, dm) \<Rightarrow> Inr (map (\<lambda>s. map (\<lambda>k. map_option rows (s k)) ks) sh))"

text \<open>
  What a batch adds to the normalization in \<open>Trainer.train\<close>: its sentence count, or
  its count of non-padding target tokens when the method is \<open>tokens\<close>.
\<close>

definition norm_of :: "Trainer \<Rightarrow> int \<Rightarrow> Batch \<Rightarrow> int" where
  "norm_of self padding_idx batch =
     (if norm_method self = ''tokens'' then num_tokens padding_idx batch
      else batch_size batch)"

text \<open>
  A list cut into consecutive groups of \<open>g\<close> elements, the last group taking what is
  left.
\<close>

function groups :: "nat \<Rightarrow> 'a list \<Rightarrow> 'a list list" where
  "groups g xs = (if g = 0 \<or> xs = [] then [] else take g xs # groups g (drop g xs))"
  by pat_completeness auto
termination
  by (relation "measure (\<lambda>(g, xs). length xs)") auto

declare groups.simps [simp del]

text \<open>
  The width and the starts of the windows that \<open>_gradient_accumulation\<close> runs over the
  target of a batch, and the calls of \<open>sharded_compute_loss\<close> among a list of events,
  each with its arguments: batch, window start, window width, shard size, normalization.
\<close>

definition trunc_of :: "Trainer \<Rightarrow> Batch \<Rightarrow> int" where
  "trunc_of self batch =
     (if trunc_size self \<noteq> 0 then trunc_size self else int (length (tgt batch)))"

definition window_starts :: "Trainer \<Rightarrow> Batch \<Rightarrow> int list" where
  "window_starts self batch =
     (case py_range 0 (int (length (tgt batch)) - 1) (trunc_of self batch) of
        Inl e \<Rightarrow> []
      | Inr js \<Rightarrow> js)"

fun sharded_calls :: "trainer_event list \<Rightarrow> (Batch \<times> int \<times> int \<times> int \<times> int) list" where
  "sharded_calls [] = []"
| "sharded_calls (ShardedComputeLoss b j n sh nrm # es) = (b, j, n, sh, nrm) # sharded_calls es"
| "sharded_calls (e # es) = sharded_calls es"

text \<open>
  Modelled from the spec: the method \<open>sharded_compute_loss\<close> of the loss object, which
  \<open>Trainer._gradient_accumulation\<close> calls; its class is not among the source files. By
  the specification it scores every shard, merges the statistics, and, when not
  evaluating, divides each shard's loss by the normalization constant it is given and
  triggers backward on the quotient. The shards of the window and the loss and
  statistics of a shard are parameters; the result is the merged statistics and the
  values backward is triggered on, in shard order.
\<close>

definition sharded_compute_loss ::
  "bool \<Rightarrow> ('s \<Rightarrow> pyfloat \<times> Statistics) \<Rightarrow> real \<Rightarrow> 's list \<Rightarrow> int \<Rightarrow>
   Statistics \<times> pyfloat list" where
  "sharded_compute_loss evaluating crit now shards nrm =
     (foldl update (Statistics_init (Finite 0) 0 0 now) (map (\<lambda>s. snd (crit s)) shards),
      if evaluating then []
      else map (\<lambda>s. tensor_div (fst (crit s)) nrm) shards)"

text \<open>
  The values backward is triggered on during a list of the trainer's events, each call
  of \<open>sharded_compute_loss\<close> being run, in training mode, on the shards \<open>shards_of\<close>
  gives for its batch and window.
\<close>

definition backward_values ::
  "('s \<Rightarrow> pyfloat \<times> Statistics) \<Rightarrow> real \<Rightarrow> (Batch \<Rightarrow> int \<Rightarrow> int \<Rightarrow> int \<Rightarrow> 's list) \<Rightarrow>
   trainer_event list \<Rightarrow> pyfloat list" where
  "backward_values crit now shards_of es =
     concat (map (\<lambda>(b, j, n, sh, nrm).
                    snd (sharded_compute_loss False crit now (shards_of b j n sh) nrm))
               (sharded_calls es))"

section \<open>Properties of EarlyStopping\<close>

lemma call_observe: "snd (EarlyStopping_call scorer s v) = observe s (scorer v)"
  by (simp add: observe_def EarlyStopping_call_def Let_def split: prod.splits)

lemma observe_not_lt:
  "\<not> float_lt x (best_score s) \<Longrightarrow>
   status (observe s x) = (if current_tolerance (observe s x) > 0 then DECREASING else STOPPED)
   \<and> current_tolerance (observe s x) \<le> current_tolerance s
   \<and> best_score (observe s x) = best_score s \<and> tolerance (observe s x) = tolerance s"
  by (simp add: observe_def EarlyStopping_call_def Let_def split: prod.splits)

lemma observe_lt:
  "float_lt x (best_score s) \<Longrightarrow>
   status (observe s x) = IMPROVING \<and> current_tolerance (observe s x) = tolerance s
   \<and> best_score (observe s x) = x \<and> tolerance (observe s x) = tolerance s"
  by (simp add: observe_def EarlyStopping_call_def)

lemma observe_tolerance: "tolerance (observe s x) = tolerance s"
  using observe_lt[of x s] observe_not_lt[of x s] by blast

lemma reachable_tolerance: "es_reachable tol ep s \<Longrightarrow> tolerance s = tol"
  by (induction rule: es_reachable.induct)
     (simp_all add: EarlyStopping_init_def observe_tolerance)

lemma observe_inv: "0 < tolerance s \<Longrightarrow> es_inv (observe s x)"
  using observe_lt[of x s] observe_not_lt[of x s]
  by (cases "float_lt x (best_score s)") (auto simp: es_inv_def)

lemma reachable_stopped_tol:
  "es_reachable tol ep s \<Longrightarrow> status s = STOPPED \<Longrightarrow> current_tolerance s \<le> 0"
proof (induction rule: es_reachable.induct)
  case es_init
  then show ?case by (simp add: EarlyStopping_init_def)
next
  case (es_step s x)
  show ?case
  proof (cases "float_lt x (best_score s)")
    case True
    with es_step.prems show ?thesis using observe_lt[of x s] by simp
  next
    case False
    with es_step.prems show ?thesis using observe_not_lt[of x s] by (simp split: if_splits)
  qed
qed

lemma float_eq_not_lt: "float_eq a b \<Longrightarrow> \<not> float_lt a b \<and> \<not> float_lt b a"
  by (cases a; cases b) auto

lemma reachable_5_6: "es_reachable 1 10 (feed (EarlyStopping_init 1 10) [Finite 5, Finite 6])"
  by (simp add: es_reachable.intros)

lemma feed_5_6:
  "feed (EarlyStopping_init 1 10) [Finite 5, Finite 6] =
     \<lparr>epochs = 10, tolerance = 1, current_tolerance = 0, best_score = Finite 5,
      status = STOPPED\<rparr>"
  by (simp add: observe_def EarlyStopping_call_def EarlyStopping_init_def float_gt_def)

lemma feed_5:
  "feed (EarlyStopping_init 1 10) [Finite 5] =
     \<lparr>epochs = 10, tolerance = 1, current_tolerance = 1, best_score = Finite 5,
      status = IMPROVING\<rparr>"
  by (simp add: observe_def EarlyStopping_call_def EarlyStopping_init_def)

text \<open>
  Claim C1, as the code has it. With tolerance 1, the scores 5.0, 4.0, 4.5, 4.5, 6.0, fed
  one per call, give the statuses IMPROVING, IMPROVING, STOPPED, STOPPED, STOPPED, with
  remaining tolerance 1, 1, 0, -1, -2: the first score above the best (4.0) uses up the
  only unit of tolerance, and each later score is again above the best.
\<close>

theorem patience_sequence:
  "feed_trace (EarlyStopping_init 1 10)
      [Finite 5.0, Finite 4.0, Finite 4.5, Finite 4.5, Finite 6.0]
   = [(IMPROVING, 1), (IMPROVING, 1), (STOPPED, 0), (STOPPED, -1), (STOPPED, -2)]"
  by (simp add: observe_def EarlyStopping_call_def EarlyStopping_init_def float_gt_def)

text \<open>
  The status sequence IMPROVING, IMPROVING, DECREASING, DECREASING, STOPPED is not what
  these five calls produce.
\<close>

theorem patience_sequence_not_decreasing:
  "map fst (feed_trace (EarlyStopping_init 1 10)
      [Finite 5.0, Finite 4.0, Finite 4.5, Finite 4.5, Finite 6.0])
   \<noteq> [IMPROVING, IMPROVING, DECREASING, DECREASING, STOPPED]"
  by (simp add: observe_def EarlyStopping_call_def EarlyStopping_init_def float_gt_def)

text \<open>
  Claim C2, as the code has it. From a reachable state with status STOPPED, a call whose
  score is not strictly below the best score leaves the status STOPPED (the remaining
  tolerance only goes down); a call whose score is strictly below the best score sets
  the status to IMPROVING and the remaining tolerance back to the configured one.
\<close>

theorem stopped_until_new_best:
  assumes "es_reachable tol ep s" and "status s = STOPPED"
  shows "status (snd (EarlyStopping_call scorer s v)) =
           (if float_lt (scorer v) (best_score s) then IMPROVING else STOPPED) \<and>
         current_tolerance (snd (EarlyStopping_call scorer s v)) =
           (if float_lt (scorer v) (best_score s) then tol
            else if float_gt (scorer v) (best_score s) then current_tolerance s - 1
            else current_tolerance s)"
proof -
  have le: "current_tolerance s \<le> 0" using assms by (rule reachable_stopped_tol)
  have t: "tolerance s = tol" using assms(1) by (rule reachable_tolerance)
  show ?thesis using le t
    by (simp add: EarlyStopping_call_def Let_def split: prod.splits)
qed

theorem stopped_until_new_best_witness:
  "status (snd (EarlyStopping_call (\<lambda>x. x)
                  (feed (EarlyStopping_init 1 10) [Finite 5, Finite 6]) (Finite 7))) = STOPPED"
proof -
  have s: "status (feed (EarlyStopping_init 1 10) [Finite 5, Finite 6]) = STOPPED"
    unfolding feed_5_6 by simp
  show ?thesis
    using stopped_until_new_best[OF reachable_5_6 s, of "\<lambda>x. x" "Finite 7"]
    unfolding feed_5_6 by simp
qed

text \<open>
  STOPPED is not terminal: after the scores 5 and 6 a machine of tolerance 1 is stopped,
  and a call with the score 4 makes it IMPROVING again.
\<close>

theorem stopped_not_terminal:
  "es_reachable 1 10 (feed (EarlyStopping_init 1 10) [Finite 5, Finite 6]) \<and>
   status (feed (EarlyStopping_init 1 10) [Finite 5, Finite 6]) = STOPPED \<and>
   status (snd (EarlyStopping_call (\<lambda>x. x)
                  (feed (EarlyStopping_init 1 10) [Finite 5, Finite 6]) (Finite 4))) = IMPROVING"
  using reachable_5_6 unfolding feed_5_6 by (simp add: EarlyStopping_call_def)

text \<open>
  Claim C3, as the code has it. A call with a score equal to the best score prints
  nothing, asks nothing of the trainer, and leaves the remaining tolerance and the best
  score as they were; it sets the status to DECREASING when the remaining tolerance is
  positive and to STOPPED otherwise.
\<close>

theorem equal_score_call:
  assumes "float_eq (scorer v) (best_score s)"
  shows "EarlyStopping_call scorer s v =
           ([], s\<lparr>status := (if 0 < current_tolerance s then DECREASING else STOPPED)\<rparr>)"
  using float_eq_not_lt[OF assms] by (simp add: EarlyStopping_call_def float_gt_def)

theorem equal_score_call_witness:
  "EarlyStopping_call (\<lambda>x. x) (feed (EarlyStopping_init 1 10) [Finite 5]) (Finite 5) =
     ([], \<lparr>epochs = 10, tolerance = 1, current_tolerance = 1, best_score = Finite 5,
           status = DECREASING\<rparr>)"
  using equal_score_call[of "\<lambda>x. x" "Finite 5" "feed (EarlyStopping_init 1 10) [Finite 5]"]
  unfolding feed_5 by simp

text \<open>
  A machine in status IMPROVING does not stay IMPROVING on an equal score: after the
  score 5 the best score is 5 and the status IMPROVING, and a second score 5 makes the
  status DECREASING.
\<close>

theorem equal_score_leaves_improving:
  "float_eq (Finite 5) (best_score (feed (EarlyStopping_init 1 10) [Finite 5])) \<and>
   status (feed (EarlyStopping_init 1 10) [Finite 5]) = IMPROVING \<and>
   status (snd (EarlyStopping_call (\<lambda>x. x)
                  (feed (EarlyStopping_init 1 10) [Finite 5]) (Finite 5))) = DECREASING"
  unfolding feed_5 by (simp add: EarlyStopping_call_def float_gt_def)

text \<open>
  Claim C10. For a configured tolerance above 0, the status is STOPPED exactly when the
  remaining tolerance is at most 0: this holds of the constructed machine, every call
  with any scorer and statistics keeps it (and the configured tolerance), so it holds of
  every reachable state; there \<open>is_improving\<close> and \<open>has_stopped\<close> are never both true.
\<close>

theorem stopped_iff_no_tolerance:
  assumes "0 < tol"
  shows "es_inv (EarlyStopping_init tol ep) \<and>
         (\<forall>s scorer v. tolerance s = tol \<and> es_inv s \<longrightarrow>
            es_inv (snd (EarlyStopping_call scorer s v)) \<and>
            tolerance (snd (EarlyStopping_call scorer s v)) = tol) \<and>
         (\<forall>s. es_reachable tol ep s \<longrightarrow>
            es_inv s \<and> \<not> (is_improving s \<and> has_stopped s))"
proof (intro conjI allI impI)
  show "es_inv (EarlyStopping_init tol ep)"
    using assms by (simp add: es_inv_def EarlyStopping_init_def)
next
  fix s :: EarlyStopping and scorer :: "'a \<Rightarrow> pyfloat" and v
  assume "tolerance s = tol \<and> es_inv s"
  then show "es_inv (snd (EarlyStopping_call scorer s v))"
    using assms observe_inv[of s "scorer v"] by (simp add: call_observe)
next
  fix s :: EarlyStopping and scorer :: "'a \<Rightarrow> pyfloat" and v
  assume "tolerance s = tol \<and> es_inv s"
  then show "tolerance (snd (EarlyStopping_call scorer s v)) = tol"
    by (simp add: call_observe observe_tolerance)
next
  fix s
  assume r: "es_reachable tol ep s"
  then show "es_inv s"
  proof (cases rule: es_reachable.cases)
    case es_init
    then show ?thesis using assms by (simp add: es_inv_def EarlyStopping_init_def)
  next
    case (es_step s0 x)
    then show ?thesis
      using observe_inv[of s0 x] reachable_tolerance[of tol ep s0] assms by simp
  qed
next
  fix s
  assume "es_reachable tol ep s"
  show "\<not> (is_improving s \<and> has_stopped s)"
    by (auto simp: is_improving_def has_stopped_def)
qed

theorem stopped_iff_no_tolerance_witness:
  "es_inv (EarlyStopping_init 1 10) \<and>
   es_inv (snd (EarlyStopping_call (\<lambda>x. x) (EarlyStopping_init 1 10) (Finite 5))) \<and>
   es_inv (feed (EarlyStopping_init 1 10) [Finite 5, Finite 6])"
proof -
  have i: "tolerance (EarlyStopping_init 1 10) = 1" by (simp add: EarlyStopping_init_def)
  have p: "(0::int) < 1" by simp
  show ?thesis
    using stopped_iff_no_tolerance[OF p, of 10, where ?'a = pyfloat] reachable_5_6 i
    by blast
qed

section \<open>Properties of Statistics\<close>












section \<open>Properties of Trainer\<close>

text \<open>
  Claim C8. Constructing a Trainer with \<open>grad_accum_count\<close> above 1 and a nonzero
  \<open>trunc_size\<close> fails on the assertion, before the model is touched; with
  \<open>grad_accum_count\<close> equal to 1, or above 1 with \<open>trunc_size\<close> 0, it succeeds and puts the
  model in training mode.
\<close>

theorem Trainer_init_accum_trunc:
  "(1 < g \<and> trunc \<noteq> 0 \<longrightarrow>
      Trainer_init trunc shard dt nm g el w = (Inl AssertionError, w)) \<and>
   (g = 1 \<or> (1 < g \<and> trunc = 0) \<longrightarrow>
      (\<exists>t. Trainer_init trunc shard dt nm g el w = (Inr t, model_train w) \<and>
           trunc_size t = trunc \<and> grad_accum_count t = g))"
  by (auto simp: Trainer_init_def Let_def)

theorem Trainer_init_accum_trunc_witness:
  "Trainer_init 5 32 ''text'' ''sents'' 2 False \<lparr>training = False, events = []\<rparr>
     = (Inl AssertionError, \<lparr>training = False, events = []\<rparr>) \<and>
   (\<exists>t. Trainer_init 5 32 ''text'' ''sents'' 1 False \<lparr>training = False, events = []\<rparr>
          = (Inr t, \<lparr>training = True, events = [SetTrain]\<rparr>)) \<and>
   (\<exists>t. Trainer_init 0 32 ''text'' ''sents'' 2 False \<lparr>training = False, events = []\<rparr>
          = (Inr t, \<lparr>training = True, events = [SetTrain]\<rparr>))"
  using Trainer_init_accum_trunc[of 2 5 32 "''text''" "''sents''" False
          "\<lparr>training = False, events = []\<rparr>"]
        Trainer_init_accum_trunc[of 1 5 32 "''text''" "''sents''" False
          "\<lparr>training = False, events = []\<rparr>"]
        Trainer_init_accum_trunc[of 2 0 32 "''text''" "''sents''" False
          "\<lparr>training = False, events = []\<rparr>"]
  by (auto simp: model_train_def emit_def)

lemma validate_loop_ok:
  "map body bs = map Inr sts \<Longrightarrow>
   validate_loop body bs st w =
     (Inr (foldl update st sts), emit (map (\<lambda>b. ValidBatch b (training w)) bs) w)"
proof (induction bs arbitrary: sts st w)
  case Nil
  then show ?case by (simp add: emit_def)
next
  case (Cons b bs)
  then obtain x xs where sts: "sts = x # xs" "body b = Inr x" "map body bs = map Inr xs"
    by (cases sts) auto
  show ?case using Cons.IH[OF sts(3)] sts by (simp add: emit_def)
qed

lemma validate_loop_raise:
  "map body pre = map Inr sts \<Longrightarrow> body b = Inl e \<Longrightarrow>
   validate_loop body (pre @ b # post) st w =
     (Inl e, emit (map (\<lambda>b. ValidBatch b (training w)) (pre @ [b])) w)"
proof (induction pre arbitrary: sts st w)
  case Nil
  then show ?case by (simp add: emit_def)
next
  case (Cons p pre)
  then obtain x xs where sts: "sts = x # xs" "body p = Inr x" "map body pre = map Inr xs"
    by (cases sts) auto
  show ?case using Cons.IH[OF sts(3) Cons.prems(2)] sts by (simp add: emit_def)
qed

text \<open>
  Claim C6, as the code has it. When the body of the loop raises on no batch, validate
  puts the model in evaluation mode, runs the body on every batch in that mode, asks
  for no gradient step, puts the model back in training mode and returns the merged
  statistics. When the body raises on a batch, the exception leaves validate at once:
  the later batches are not run and the model stays in evaluation mode.
\<close>

theorem validate_mode:
  "(map body bs = map Inr sts \<longrightarrow>
      validate body now bs w =
        (Inr (foldl update (Statistics_init (Finite 0) 0 0 now) sts),
         w\<lparr>training := True,
           events := events w @ SetEval # map (\<lambda>b. ValidBatch b False) bs @ [SetTrain]\<rparr>)) \<and>
   (map body pre = map Inr sts \<and> body b = Inl e \<longrightarrow>
      validate body now (pre @ b # post) w =
        (Inl e,
         w\<lparr>training := False,
           events := events w @ SetEval # map (\<lambda>b. ValidBatch b False) (pre @ [b])\<rparr>))"
  by (auto simp: validate_def validate_loop_ok validate_loop_raise model_eval_def
        model_train_def emit_def)

theorem validate_mode_witness:
  "validate (\<lambda>b. if batch_size b = 0 then Inl RuntimeError
                  else Inr (Statistics_init (Finite 2) 3 1 0)) 0
     [\<lparr>batch_size = 1, tgt = []\<rparr>] \<lparr>training = True, events = []\<rparr>
   = (Inr (update (Statistics_init (Finite 0) 0 0 0) (Statistics_init (Finite 2) 3 1 0)),
      \<lparr>training = True,
       events = [SetEval, ValidBatch \<lparr>batch_size = 1, tgt = []\<rparr> False, SetTrain]\<rparr>) \<and>
   validate (\<lambda>b. if batch_size b = 0 then Inl RuntimeError
                  else Inr (Statistics_init (Finite 2) 3 1 0)) 0
     [\<lparr>batch_size = 1, tgt = []\<rparr>, \<lparr>batch_size = 0, tgt = []\<rparr>,
      \<lparr>batch_size = 1, tgt = []\<rparr>] \<lparr>training = True, events = []\<rparr>
   = (Inl RuntimeError,
      \<lparr>training = False,
       events = [SetEval, ValidBatch \<lparr>batch_size = 1, tgt = []\<rparr> False,
                 ValidBatch \<lparr>batch_size = 0, tgt = []\<rparr> False]\<rparr>)"
  using validate_mode[of
      "\<lambda>b. if batch_size b = 0 then Inl RuntimeError
           else Inr (Statistics_init (Finite 2) 3 1 0)"
      "[\<lparr>batch_size = 1, tgt = []\<rparr>]"
      "[Statistics_init (Finite 2) 3 1 0]"
      0 "\<lparr>training = True, events = []\<rparr>"
      "[\<lparr>batch_size = 1, tgt = []\<rparr>]"
      "\<lparr>batch_size = 0, tgt = []\<rparr>" RuntimeError
      "[\<lparr>batch_size = 1, tgt = []\<rparr>]"]
  by simp

text \<open>
  The model's mode is not restored when the loop is interrupted: validate is entered
  with the model in training mode, the body raises on the only batch, and the model is
  left in evaluation mode.
\<close>

theorem validate_interrupted_stays_eval:
  "training (snd (validate (\<lambda>b. Inl RuntimeError) 0 [\<lparr>batch_size = 1, tgt = []\<rparr>]
                    \<lparr>training = True, events = []\<rparr>)) = False"
  by (simp add: validate_def model_eval_def emit_def)

section \<open>Properties of shardVariables\<close>

lemma div_up_upper: "0 < w \<Longrightarrow> n \<le> ((n + w - 1) div w) * (w::nat)"
proof -
  assume w: "0 < w"
  have "(n + w - 1) div w * w + (n + w - 1) mod w = n + w - 1" by simp
  moreover have "(n + w - 1) mod w < w" using w by simp
  ultimately show ?thesis by linarith
qed

lemma div_up_lower: "0 < w \<Longrightarrow> 0 < n \<Longrightarrow> ((n + w - 1) div w - 1) * w < (n::nat)"
proof -
  assume w: "0 < w" and n: "0 < n"
  define q where "q = (n + w - 1) div w"
  have e: "q * w + (n + w - 1) mod w = n + w - 1" unfolding q_def by simp
  have "w \<le> n + w - 1" using n by simp
  then have q: "1 \<le> q" unfolding q_def using w by (simp add: Suc_leI div_greater_zero_iff)
  then obtain p where p: "q = Suc p" by (cases q) auto
  have "p * w + w + (n + w - 1) mod w = n + w - 1" using e p by simp
  then have "p * w < n" using n w by linarith
  then show ?thesis unfolding q_def[symmetric] p by simp
qed

lemma ceiling_div_up: "0 < w \<Longrightarrow> \<lceil>real n / real w\<rceil> = int ((n + w - 1) div w)"
proof (rule ceiling_unique)
  assume w: "0 < w"
  show "real n / real w \<le> of_int (int ((n + w - 1) div w))"
  proof -
    have "real n \<le> real (((n + w - 1) div w) * w)" using div_up_upper[OF w, of n] by linarith
    then show ?thesis using w by (simp add: divide_le_eq)
  qed
  show "of_int (int ((n + w - 1) div w)) - 1 < real n / real w"
  proof (cases "n = 0")
    case True
    then show ?thesis using w by simp
  next
    case False
    then have n: "0 < n" by simp
    have q: "1 \<le> (n + w - 1) div w" using n w by (simp add: Suc_leI div_greater_zero_iff)
    have "real (((n + w - 1) div w - 1) * w) < real n"
      using div_up_lower[OF w n] by linarith
    then have "(real ((n + w - 1) div w) - 1) * real w < real n" using q by (simp add: of_nat_diff)
    then show ?thesis using w by (simp add: less_divide_eq)
  qed
qed

lemma n_shards_eq: "0 < w \<Longrightarrow> nat (((int n - 1) div int w) + 1) = (n + w - 1) div w"
proof (cases "n = 0")
  case True
  assume w: "0 < w"
  have "(- 1) div int w = - 1" using w by (simp add: zdiv_mono1 div_eq_minus1)
  then show ?thesis using True w by simp
next
  case False
  assume w: "0 < w"
  from False obtain m where m: "n = Suc m" by (cases n) auto
  have "int n - 1 = int m" using m by simp
  then have "((int n - 1) div int w) + 1 = int (m div w + 1)" by (simp add: zdiv_int)
  also have "m div w + 1 = (m + w) div w" using w by simp
  finally show ?thesis using m by simp
qed

lemma rows_with_rows [simp]: "rows (with_rows xs v) = xs"
  by (cases v) simp_all

lemma length_torch_split [simp]: "length (torch_split v w) = (size0 v + w - 1) div w"
  by (simp add: torch_split_def Let_def)

lemma rows_torch_split:
  assumes w: "0 < w" and i: "i < (size0 v + w - 1) div w"
  shows "rows (torch_split v w ! i) = take w (drop (i * w) (rows v))"
proof (cases "i < (size0 v + w - 1) div w - 1")
  case True
  then show ?thesis using i by (simp add: torch_split_def Let_def narrow_def)
next
  case False
  with i have last: "i = (size0 v + w - 1) div w - 1" by simp
  have up: "size0 v \<le> ((size0 v + w - 1) div w) * w" by (rule div_up_upper[OF w])
  have iw: "i * w + w = ((size0 v + w - 1) div w) * w"
    using i last by (simp add: diff_mult_distrib)
  have len: "length (drop (i * w) (rows v)) \<le> w - (w * ((size0 v + w - 1) div w) - size0 v)"
    using up iw by (simp add: size0_def mult.commute)
  have len2: "length (drop (i * w) (rows v)) \<le> w" using up iw by (simp add: size0_def)
  show ?thesis using i last len len2
    by (simp add: torch_split_def Let_def narrow_def)
qed

lemma concat_chunks: "concat (map (\<lambda>i. take w (drop (i * w) xs)) [0 ..< k]) = take (k * w) xs"
proof (induction k)
  case 0
  then show ?case by simp
next
  case (Suc k)
  have "take (k * w + w) xs = take (k * w) xs @ take w (drop (k * w) xs)" by (rule take_add)
  then show ?case using Suc by (simp add: add.commute)
qed

lemma size0_make_dummy [simp]: "size0 (make_dummy ev v) = size0 v"
  by (cases v) (simp_all add: size0_def)

lemma rows_make_dummy [simp]: "rows (make_dummy ev v) = rows v"
  by (cases v) simp_all

lemma assign_splits_ok:
  "i + length vs \<le> length shards \<Longrightarrow>
   \<exists>sh. assign_splits k i vs shards = Inr sh \<and> length sh = length shards \<and>
        (\<forall>j < length shards.
           sh ! j = (if i \<le> j \<and> j < i + length vs
                     then (shards ! j)(k \<mapsto> vs ! (j - i)) else shards ! j))"
proof (induction vs arbitrary: i shards)
  case Nil
  then show ?case by auto
next
  case (Cons v vs)
  then have i: "i < length shards" by simp
  have "Suc i + length vs \<le> length (shards[i := (shards ! i)(k \<mapsto> v)])"
    using Cons.prems by simp
  from Cons.IH[OF this] obtain sh where
    sh: "assign_splits k (Suc i) vs (shards[i := (shards ! i)(k \<mapsto> v)]) = Inr sh"
        "length sh = length shards"
        "\<forall>j < length shards.
           sh ! j = (if Suc i \<le> j \<and> j < Suc i + length vs
                     then ((shards[i := (shards ! i)(k \<mapsto> v)]) ! j)(k \<mapsto> vs ! (j - Suc i))
                     else (shards[i := (shards ! i)(k \<mapsto> v)]) ! j)"
    by auto
  have "\<forall>j < length shards.
           sh ! j = (if i \<le> j \<and> j < i + length (v # vs)
                     then (shards ! j)(k \<mapsto> (v # vs) ! (j - i)) else shards ! j)"
  proof (intro allI impI)
    fix j assume j: "j < length shards"
    show "sh ! j = (if i \<le> j \<and> j < i + length (v # vs)
                     then (shards ! j)(k \<mapsto> (v # vs) ! (j - i)) else shards ! j)"
    proof (cases "j = i")
      case True
      then show ?thesis using sh(3) j i by simp
    next
      case False
      then show ?thesis using sh(3) j i by (auto simp: nth_Cons' Suc_diff_Suc)
    qed
  qed
  then show ?case using sh i by simp
qed

lemma assign_splits_fail:
  "i \<le> length shards \<Longrightarrow> length shards < i + length vs \<Longrightarrow>
   assign_splits k i vs shards = Inl IndexError"
proof (induction vs arbitrary: i shards)
  case Nil
  then show ?case by simp
next
  case (Cons v vs)
  then show ?case by (cases "i < length shards") auto
qed

lemma shard_loop_ok:
  assumes "distinct (map fst vars)"
    and "list_all (\<lambda>kv. (size0 (snd kv) + w - 1) div w \<le> length shards) vars"
  shows "\<exists>sh dm. shard_loop vars w ev (shards, dummies) = Inr (sh, dm) \<and>
           length sh = length shards \<and>
           (\<forall>j < length shards. \<forall>k.
              (sh ! j) k =
                (case map_of vars k of
                   Some v \<Rightarrow> if j < (size0 v + w - 1) div w
                             then Some (torch_split (make_dummy ev v) w ! j)
                             else (shards ! j) k
                 | None \<Rightarrow> (shards ! j) k)) \<and>
           (\<forall>k. dm k = (case map_of vars k of
                          Some v \<Rightarrow> Some (make_dummy ev v) | None \<Rightarrow> dummies k))"
  using assms
proof (induction vars arbitrary: shards dummies)
  case Nil
  then show ?case by simp
next
  case (Cons kv vars)
  obtain k v where kv: "kv = (k, v)" by (cases kv)
  let ?sp = "torch_split (make_dummy ev v) w"
  have fit: "0 + length ?sp \<le> length shards" using Cons.prems(2) kv by simp
  from assign_splits_ok[OF fit, of k] obtain s1 where
    s1: "assign_splits k 0 ?sp shards = Inr s1" "length s1 = length shards"
        "\<forall>j < length shards.
           s1 ! j = (if j < length ?sp then (shards ! j)(k \<mapsto> ?sp ! j) else shards ! j)"
    by auto
  have d: "distinct (map fst vars)" using Cons.prems(1) by simp
  have nk: "map_of vars k = None" using Cons.prems(1) kv by (simp add: map_of_eq_None_iff)
  have la: "list_all (\<lambda>kv. (size0 (snd kv) + w - 1) div w \<le> length s1) vars"
    using Cons.prems(2) s1(2) by simp
  from Cons.IH[OF d la, of "dummies(k \<mapsto> make_dummy ev v)"] obtain sh dm where
    r: "shard_loop vars w ev (s1, dummies(k \<mapsto> make_dummy ev v)) = Inr (sh, dm)"
       "length sh = length s1"
       "\<forall>j < length s1. \<forall>k'.
              (sh ! j) k' =
                (case map_of vars k' of
                   Some v' \<Rightarrow> if j < (size0 v' + w - 1) div w
                             then Some (torch_split (make_dummy ev v') w ! j)
                             else (s1 ! j) k'
                 | None \<Rightarrow> (s1 ! j) k')"
       "\<forall>k'. dm k' = (case map_of vars k' of
                          Some v' \<Rightarrow> Some (make_dummy ev v')
                        | None \<Rightarrow> (dummies(k \<mapsto> make_dummy ev v)) k')"
    by blast
  have run: "shard_loop (kv # vars) w ev (shards, dummies) = Inr (sh, dm)"
    using kv s1(1) r(1) by simp
  have c1: "\<forall>j < length shards. \<forall>k'.
              (sh ! j) k' =
                (case map_of (kv # vars) k' of
                   Some v' \<Rightarrow> if j < (size0 v' + w - 1) div w
                             then Some (torch_split (make_dummy ev v') w ! j)
                             else (shards ! j) k'
                 | None \<Rightarrow> (shards ! j) k')"
  proof (intro allI impI)
    fix j k' assume j: "j < length shards"
    show "(sh ! j) k' =
                (case map_of (kv # vars) k' of
                   Some v' \<Rightarrow> if j < (size0 v' + w - 1) div w
                             then Some (torch_split (make_dummy ev v') w ! j)
                             else (shards ! j) k'
                 | None \<Rightarrow> (shards ! j) k')"
    proof (cases "k' = k")
      case True
      then show ?thesis using r(3) s1(2,3) j nk kv by simp
    next
      case False
      then show ?thesis using r(3) s1(2,3) j kv by (simp split: option.splits)
    qed
  qed
  have c2: "\<forall>k'. dm k' = (case map_of (kv # vars) k' of
                          Some v' \<Rightarrow> Some (make_dummy ev v') | None \<Rightarrow> dummies k')"
    using r(4) nk kv by (auto split: option.splits)
  have c0: "length sh = length shards" using r(2) s1(2) by simp
  show ?case by (intro exI[of _ sh] exI[of _ dm] conjI run c0 c1 c2)
qed

lemma shard_loop_fail:
  assumes "list_ex (\<lambda>kv. length shards < (size0 (snd kv) + w - 1) div w) vars"
  shows "shard_loop vars w ev (shards, dummies) = Inl IndexError"
  using assms
proof (induction vars arbitrary: shards dummies)
  case Nil
  then show ?case by simp
next
  case (Cons kv vars)
  obtain k v where kv: "kv = (k, v)" by (cases kv)
  let ?sp = "torch_split (make_dummy ev v) w"
  show ?case
  proof (cases "length shards < (size0 v + w - 1) div w")
    case True
    then have "assign_splits k 0 ?sp shards = Inl IndexError"
      by (intro assign_splits_fail) simp_all
    then show ?thesis using kv by simp
  next
    case False
    then have fit: "0 + length ?sp \<le> length shards" by simp
    from assign_splits_ok[OF fit, of k] obtain s1 where
      s1: "assign_splits k 0 ?sp shards = Inr s1" "length s1 = length shards"
      by auto
    have "list_ex (\<lambda>kv. length s1 < (size0 (snd kv) + w - 1) div w) vars"
      using Cons.prems False kv s1(2) by simp
    from Cons.IH[OF this] show ?thesis using kv s1(1) by simp
  qed
qed

lemma shardVariables_unfold:
  "0 < w \<Longrightarrow> shardVariables ((k0, v0) # rest) w ev =
     shard_loop ((k0, v0) # rest) w ev
       (replicate ((size0 v0 + w - 1) div w) Map.empty, Map.empty)"
  by (simp add: shardVariables_def n_shards_eq del: shard_loop.simps)

text \<open>
  Claim C7. When every tensor of a non-empty variable set has the same extent \<open>n\<close>, at
  least 1, along the first axis, and the shard width \<open>w\<close> is positive, shardVariables
  returns exactly \<open>ceil(n / w)\<close> shards; shard \<open>i\<close> holds, for every key, the non-empty
  slice of rows \<open>i * w\<close> to \<open>i * w + w\<close> of that key's tensor (what is left of it in
  the last shard), and the slices of a key, concatenated in shard order, give back the
  tensor.
\<close>

theorem shardVariables_partition:
  assumes ne: "variables \<noteq> []"
    and dis: "distinct (map fst variables)"
    and ext: "\<forall>kv \<in> set variables. size0 (snd kv) = n"
    and n: "1 \<le> n" and w: "0 < w"
  shows "\<exists>shards dummies.
           shardVariables variables w ev = Inr (shards, dummies) \<and>
           int (length shards) = \<lceil>real n / real w\<rceil> \<and>
           (\<forall>kv \<in> set variables.
              (\<forall>i < length shards. \<exists>c.
                 (shards ! i) (fst kv) = Some c \<and>
                 rows c = take w (drop (i * w) (rows (snd kv))) \<and> rows c \<noteq> []) \<and>
              concat (map (\<lambda>s. rows (the (s (fst kv)))) shards) = rows (snd kv))"
proof -
  let ?m = "(n + w - 1) div w"
  obtain k0 v0 rest where vs: "variables = (k0, v0) # rest"
    using ne by (cases variables) auto
  have n0: "size0 v0 = n" using ext vs by simp
  have la: "list_all (\<lambda>kv. (size0 (snd kv) + w - 1) div w \<le> length (replicate ?m (Map.empty :: 'a pydict))) variables"
    using ext by (simp add: list_all_iff)
  from shard_loop_ok[OF dis la, of ev Map.empty] obtain sh dm where
    r: "shard_loop variables w ev (replicate ?m Map.empty, Map.empty) = Inr (sh, dm)"
       "length sh = ?m"
       "\<forall>j < ?m. \<forall>k.
              (sh ! j) k =
                (case map_of variables k of
                   Some v \<Rightarrow> if j < (size0 v + w - 1) div w
                             then Some (torch_split (make_dummy ev v) w ! j)
                             else (replicate ?m (Map.empty :: 'a pydict) ! j) k
                 | None \<Rightarrow> (replicate ?m (Map.empty :: 'a pydict) ! j) k)"
    by auto
  have run: "shardVariables variables w ev = Inr (sh, dm)"
    using r(1) shardVariables_unfold[OF w, of k0 v0 rest ev] n0 vs by simp
  have cnt: "int (length sh) = \<lceil>real n / real w\<rceil>"
    using r(2) ceiling_div_up[OF w, of n] by simp
  have each: "\<forall>kv \<in> set variables.
              (\<forall>i < length sh. \<exists>c.
                 (sh ! i) (fst kv) = Some c \<and>
                 rows c = take w (drop (i * w) (rows (snd kv))) \<and> rows c \<noteq> []) \<and>
              concat (map (\<lambda>s. rows (the (s (fst kv)))) sh) = rows (snd kv)"
  proof
    fix kv assume kv: "kv \<in> set variables"
    obtain k v where kv2: "kv = (k, v)" by (cases kv)
    have mo: "map_of variables k = Some v" using kv kv2 dis by simp
    have sz: "size0 v = n" using ext kv kv2 by auto
    have nth: "\<And>i. i < ?m \<Longrightarrow> (sh ! i) k = Some (torch_split (make_dummy ev v) w ! i)"
      using r(3) mo sz by simp
    have rw: "\<And>i. i < ?m \<Longrightarrow>
        rows (torch_split (make_dummy ev v) w ! i) = take w (drop (i * w) (rows v))"
      using rows_torch_split[OF w, of _ "make_dummy ev v"] sz by simp
    have nonempty: "\<And>i. i < ?m \<Longrightarrow> take w (drop (i * w) (rows v)) \<noteq> []"
    proof -
      fix i assume i: "i < ?m"
      have "i * w \<le> (?m - 1) * w" using i by (intro mult_le_mono1) simp
      also have "\<dots> < n" using div_up_lower[OF w, of n] n by simp
      finally have "i * w < length (rows v)" using sz by (simp add: size0_def)
      then show "take w (drop (i * w) (rows v)) \<noteq> []" using w by simp
    qed
    have a: "\<forall>i < length sh. \<exists>c.
                 (sh ! i) (fst kv) = Some c \<and>
                 rows c = take w (drop (i * w) (rows (snd kv))) \<and> rows c \<noteq> []"
      using nth rw nonempty r(2) kv2 by simp
    have "map (\<lambda>s. rows (the (s k))) sh = map (\<lambda>i. take w (drop (i * w) (rows v))) [0 ..< ?m]"
      using nth rw r(2) by (intro nth_equalityI) simp_all
    then have "concat (map (\<lambda>s. rows (the (s k))) sh) = take (?m * w) (rows v)"
      by (simp add: concat_chunks)
    also have "\<dots> = rows v" using div_up_upper[OF w, of n] sz by (simp add: size0_def)
    finally have b: "concat (map (\<lambda>s. rows (the (s (fst kv)))) sh) = rows (snd kv)"
      using kv2 by simp
    show "(\<forall>i < length sh. \<exists>c.
                 (sh ! i) (fst kv) = Some c \<and>
                 rows c = take w (drop (i * w) (rows (snd kv))) \<and> rows c \<noteq> []) \<and>
              concat (map (\<lambda>s. rows (the (s (fst kv)))) sh) = rows (snd kv)"
      using a b by simp
  qed
  show ?thesis by (intro exI[of _ sh] exI[of _ dm] conjI run cnt each)
qed

theorem shardVariables_partition_witness:
  "shards_view [''out_t'', ''targ_t'']
     (shardVariables [(''out_t'', Variable [10, 11, 12::nat] True False),
                      (''targ_t'', Variable [20, 21, 22] False False)] 2 False)
   = Inr [[Some [10, 11], Some [20, 21]], [Some [12], Some [22]]]"
proof -
  let ?vars = "[(''out_t'', Variable [10, 11, 12::nat] True False),
                (''targ_t'', Variable [20, 21, 22] False False)]"
  have c: "\<lceil>real 3 / real 2\<rceil> = (2::int)" by (simp add: ceiling_unique)
  from shardVariables_partition[of ?vars 3 2 False]
  obtain shards dummies where
    r: "shardVariables ?vars 2 False = Inr (shards, dummies)" "length shards = 2"
       "\<forall>kv \<in> set ?vars.
              (\<forall>i < length shards. \<exists>c.
                 (shards ! i) (fst kv) = Some c \<and>
                 rows c = take 2 (drop (i * 2) (rows (snd kv))) \<and> rows c \<noteq> [])"
    using c by (auto simp: size0_def)
  obtain s0 s1 where sh: "shards = [s0, s1]"
    using r(2) by (cases shards; cases "tl shards") auto
  have "map_option rows (s0 ''out_t'') = Some [10, 11] \<and> map_option rows (s0 ''targ_t'') = Some [20, 21]
       \<and> map_option rows (s1 ''out_t'') = Some [12] \<and> map_option rows (s1 ''targ_t'') = Some [22]"
    using r(3) sh by (auto simp: less_Suc_eq numeral_2_eq_2)
  then show ?thesis using r(1) sh by (simp add: shards_view_def)
qed

text \<open>
  Claim C5, as the code has it. shardVariables does not compare the extents. The shard
  count is \<open>ceil(n0 / w)\<close> for the extent \<open>n0\<close> of the first tensor of the set. If some
  tensor splits into more slices than that, the call raises IndexError and returns no
  shards. Otherwise the call succeeds, also when the extents differ: every tensor is
  sliced by its own extent, and a tensor with fewer slices is absent from the later
  shards.
\<close>

theorem shardVariables_no_extent_check:
  assumes vs: "variables = (k0, v0) # rest"
    and dis: "distinct (map fst variables)"
    and w: "0 < w"
  shows "((\<exists>kv \<in> set variables.
            \<lceil>real (size0 v0) / real w\<rceil> < \<lceil>real (size0 (snd kv)) / real w\<rceil>) \<longrightarrow>
          shardVariables variables w ev = Inl IndexError) \<and>
         (\<not> (\<exists>kv \<in> set variables.
            \<lceil>real (size0 v0) / real w\<rceil> < \<lceil>real (size0 (snd kv)) / real w\<rceil>) \<longrightarrow>
          (\<exists>shards dummies.
             shardVariables variables w ev = Inr (shards, dummies) \<and>
             int (length shards) = \<lceil>real (size0 v0) / real w\<rceil> \<and>
             (\<forall>kv \<in> set variables. \<forall>i < length shards.
                map_option rows ((shards ! i) (fst kv)) =
                  (if int i < \<lceil>real (size0 (snd kv)) / real w\<rceil>
                   then Some (take w (drop (i * w) (rows (snd kv)))) else None))))"
proof (intro conjI impI)
  let ?m = "(size0 v0 + w - 1) div w"
  assume "\<exists>kv \<in> set variables.
            \<lceil>real (size0 v0) / real w\<rceil> < \<lceil>real (size0 (snd kv)) / real w\<rceil>"
  then have "list_ex (\<lambda>kv. length (replicate ?m (Map.empty :: 'a pydict))
                < (size0 (snd kv) + w - 1) div w) variables"
    using w by (simp add: ceiling_div_up list_ex_iff)
  from shard_loop_fail[OF this, of ev Map.empty]
  show "shardVariables variables w ev = Inl IndexError"
    using shardVariables_unfold[OF w, of k0 v0 rest ev] vs by simp
next
  let ?m = "(size0 v0 + w - 1) div w"
  assume "\<not> (\<exists>kv \<in> set variables.
            \<lceil>real (size0 v0) / real w\<rceil> < \<lceil>real (size0 (snd kv)) / real w\<rceil>)"
  then have la: "list_all (\<lambda>kv. (size0 (snd kv) + w - 1) div w
                  \<le> length (replicate ?m (Map.empty :: 'a pydict))) variables"
    using w by (simp add: ceiling_div_up list_all_iff linorder_not_less)
  from shard_loop_ok[OF dis la, of ev Map.empty] obtain sh dm where
    r: "shard_loop variables w ev (replicate ?m Map.empty, Map.empty) = Inr (sh, dm)"
       "length sh = ?m"
       "\<forall>j < ?m. \<forall>k.
              (sh ! j) k =
                (case map_of variables k of
                   Some v \<Rightarrow> if j < (size0 v + w - 1) div w
                             then Some (torch_split (make_dummy ev v) w ! j)
                             else (replicate ?m (Map.empty :: 'a pydict) ! j) k
                 | None \<Rightarrow> (replicate ?m (Map.empty :: 'a pydict) ! j) k)"
    by auto
  have run: "shardVariables variables w ev = Inr (sh, dm)"
    using r(1) shardVariables_unfold[OF w, of k0 v0 rest ev] vs by simp
  have cnt: "int (length sh) = \<lceil>real (size0 v0) / real w\<rceil>"
    using r(2) ceiling_div_up[OF w, of "size0 v0"] by simp
  have each: "\<forall>kv \<in> set variables. \<forall>i < length sh.
                map_option rows ((sh ! i) (fst kv)) =
                  (if int i < \<lceil>real (size0 (snd kv)) / real w\<rceil>
                   then Some (take w (drop (i * w) (rows (snd kv)))) else None)"
  proof (intro ballI allI impI)
    fix kv i assume kv: "kv \<in> set variables" and i: "i < length sh"
    obtain k v where kv2: "kv = (k, v)" by (cases kv)
    have mo: "map_of variables k = Some v" using kv kv2 dis by simp
    show "map_option rows ((sh ! i) (fst kv)) =
                  (if int i < \<lceil>real (size0 (snd kv)) / real w\<rceil>
                   then Some (take w (drop (i * w) (rows (snd kv)))) else None)"
    proof (cases "i < (size0 v + w - 1) div w")
      case True
      then have "rows (torch_split (make_dummy ev v) w ! i) = take w (drop (i * w) (rows v))"
        using rows_torch_split[OF w, of i "make_dummy ev v"] by simp
      then show ?thesis using r(2,3) i mo True kv2 w by (simp add: ceiling_div_up)
    next
      case False
      then show ?thesis using r(2,3) i mo kv2 w by (simp add: ceiling_div_up)
    qed
  qed
  show "\<exists>shards dummies.
             shardVariables variables w ev = Inr (shards, dummies) \<and>
             int (length shards) = \<lceil>real (size0 v0) / real w\<rceil> \<and>
             (\<forall>kv \<in> set variables. \<forall>i < length shards.
                map_option rows ((shards ! i) (fst kv)) =
                  (if int i < \<lceil>real (size0 (snd kv)) / real w\<rceil>
                   then Some (take w (drop (i * w) (rows (snd kv)))) else None))"
    by (intro exI[of _ sh] exI[of _ dm] conjI run cnt each)
qed

theorem shardVariables_no_extent_check_witness:
  "shardVariables [(''out_t'', Variable [10, 11::nat] True False),
                   (''targ_t'', Variable [20, 21, 22, 23] False False)] 2 False
     = Inl IndexError \<and>
   shards_view [''out_t'', ''targ_t'']
     (shardVariables [(''out_t'', Variable [10, 11, 12, 13::nat] True False),
                      (''targ_t'', Variable [20, 21] False False)] 2 False)
     = Inr [[Some [10, 11], Some [20, 21]], [Some [12, 13], None]]"
proof -
  let ?bad = "[(''out_t'', Variable [10, 11::nat] True False),
               (''targ_t'', Variable [20, 21, 22, 23] False False)]"
  let ?ok = "[(''out_t'', Variable [10, 11, 12, 13::nat] True False),
              (''targ_t'', Variable [20, 21] False False)]"
  have c4: "\<lceil>real (Suc (Suc (Suc (Suc 0)))) / real 2\<rceil> = (2::int)"
    and c2: "\<lceil>real (Suc (Suc 0)) / real 2\<rceil> = (1::int)"
    by (simp_all add: ceiling_unique)
  have a: "shardVariables ?bad 2 False = Inl IndexError"
    using shardVariables_no_extent_check[of ?bad "''out_t''"
        "Variable [10, 11::nat] True False"
        "[(''targ_t'', Variable [20, 21, 22, 23] False False)]" 2 False]
    by (simp add: size0_def c4 c2)
  from shardVariables_no_extent_check[of ?ok "''out_t''"
        "Variable [10, 11, 12, 13::nat] True False"
        "[(''targ_t'', Variable [20, 21] False False)]" 2 False]
  obtain shards dummies where
    r: "shardVariables ?ok 2 False = Inr (shards, dummies)" "length shards = 2"
       "\<forall>kv \<in> set ?ok. \<forall>i < length shards.
                map_option rows ((shards ! i) (fst kv)) =
                  (if int i < \<lceil>real (size0 (snd kv)) / real 2\<rceil>
                   then Some (take 2 (drop (i * 2) (rows (snd kv)))) else None)"
    by (auto simp: size0_def c4 c2)
  obtain s0 s1 where sh: "shards = [s0, s1]"
    using r(2) by (cases shards; cases "tl shards") auto
  have "map_option rows (s0 ''out_t'') = Some [10, 11] \<and>
        map_option rows (s0 ''targ_t'') = Some [20, 21] \<and>
        map_option rows (s1 ''out_t'') = Some [12, 13] \<and>
        map_option rows (s1 ''targ_t'') = None"
    using r(3) sh by (auto simp: less_Suc_eq numeral_2_eq_2 size0_def c4 c2)
  then show ?thesis using a r(1) sh by (simp add: shards_view_def)
qed

text \<open>
  Tensors of extents 4 and 3 are not rejected: with shard width 2 the call returns two
  shards, the second one holding two rows of the first tensor and one of the second.
\<close>

theorem shardVariables_accepts_mismatch:
  "shards_view [''out_t'', ''targ_t'']
     (shardVariables [(''out_t'', Variable [10, 11, 12, 13::nat] True False),
                      (''targ_t'', Variable [20, 21, 22] False False)] 2 False)
     = Inr [[Some [10, 11], Some [20, 21]], [Some [12, 13], Some [22]]]"
  by code_simp

section \<open>Properties of MemoryEfficientLoss\<close>

lemma loss_loop_backward:
  "loss_loop self bsz crit shards (stats, backs) = Inr (stats', backs') \<Longrightarrow>
   backs' = backs @ (if eval_mode self then []
                     else map (\<lambda>s. tensor_div (fst (crit s)) bsz) shards) \<and>
   stats' = foldl Loss_update stats (map (\<lambda>s. snd (crit s)) shards)"
proof (induction shards arbitrary: stats backs)
  case Nil
  then show ?case by simp
next
  case (Cons s ss)
  obtain l st where c: "crit s = (l, st)" by (cases "crit s")
  from Cons.prems have
    "loss_loop self bsz crit ss
       (Loss_update stats st,
        if \<not> eval_mode self then backs @ [tensor_div l bsz] else backs) = Inr (stats', backs')"
    using c by (simp split: if_splits)
  from Cons.IH[OF this] show ?case using c by simp
qed

section \<open>Properties of the trainer's normalization\<close>

lemma groups_Nil [simp]: "groups g [] = []"
  by (simp add: groups.simps)

lemma groups_short: "0 < g \<Longrightarrow> xs \<noteq> [] \<Longrightarrow> length xs \<le> g \<Longrightarrow> groups g xs = [xs]"
  by (subst groups.simps) simp

lemma groups_full: "0 < g \<Longrightarrow> length xs = g \<Longrightarrow> groups g (xs @ ys) = xs # groups g ys"
  by (subst groups.simps) auto

lemma groups_1: "groups (Suc 0) xs = map (\<lambda>x. [x]) xs"
proof (induction xs)
  case Nil
  then show ?case by simp
next
  case (Cons x xs)
  have "groups (Suc 0) ([x] @ xs) = [x] # groups (Suc 0) xs" by (rule groups_full) simp_all
  then show ?case using Cons by simp
qed

lemma train_fold_groups:
  assumes g: "0 < g" and ga: "grad_accum_count self = int g"
  shows "length tb < g \<Longrightarrow>
    (let st = foldl (train_step self pad)
                \<lparr>true_batchs = tb, accum = int (length tb),
                 normalization = sum_list (map (norm_of self pad) tb), calls = cs\<rparr> it
     in (if length (true_batchs st) > 0
         then calls st @ [(true_batchs st, normalization st)] else calls st))
    = cs @ map (\<lambda>grp. (grp, sum_list (map (norm_of self pad) grp))) (groups g (tb @ it))"
proof (induction it arbitrary: tb cs)
  case Nil
  show ?case
  proof (cases "tb = []")
    case True
    then show ?thesis by simp
  next
    case False
    then show ?thesis using groups_short[OF g False] Nil by simp
  qed
next
  case (Cons b it)
  let ?tb' = "tb @ [b]"
  show ?case
  proof (cases "length ?tb' = g")
    case True
    have step: "train_step self pad
             \<lparr>true_batchs = tb, accum = int (length tb),
              normalization = sum_list (map (norm_of self pad) tb), calls = cs\<rparr> b
          = \<lparr>true_batchs = [], accum = int (length ([]::Batch list)),
             normalization = sum_list (map (norm_of self pad) []),
             calls = cs @ [(?tb', sum_list (map (norm_of self pad) ?tb'))]\<rparr>"
      using True ga by (auto simp: train_step_def Let_def norm_of_def)
    have gr: "groups g (tb @ b # it) = ?tb' # groups g it"
      using groups_full[OF g True, of it] by simp
    have "0 < g" by (rule g)
    then have l0: "length ([]::Batch list) < g" by simp
    show ?thesis using Cons.IH[OF l0, of "cs @ [(?tb', sum_list (map (norm_of self pad) ?tb'))]"]
      unfolding foldl_Cons step gr by simp
  next
    case False
    then have lt: "length ?tb' < g" using Cons.prems by simp
    have step: "train_step self pad
             \<lparr>true_batchs = tb, accum = int (length tb),
              normalization = sum_list (map (norm_of self pad) tb), calls = cs\<rparr> b
          = \<lparr>true_batchs = ?tb', accum = int (length ?tb'),
             normalization = sum_list (map (norm_of self pad) ?tb'), calls = cs\<rparr>"
      using False ga by (auto simp: train_step_def Let_def norm_of_def)
    show ?thesis using Cons.IH[OF lt, of cs] unfolding foldl_Cons step by simp
  qed
qed

lemma Trainer_train_groups:
  assumes "0 < grad_accum_count self"
  shows "Trainer_train self pad train_iter =
           map (\<lambda>grp. (grp, sum_list (map (norm_of self pad) grp)))
             (groups (nat (grad_accum_count self)) train_iter)"
proof -
  have g: "0 < nat (grad_accum_count self)" using assms by simp
  have ga: "grad_accum_count self = int (nat (grad_accum_count self))" using assms by simp
  have l: "length ([]::Batch list) < nat (grad_accum_count self)" using g by simp
  show ?thesis
    using train_fold_groups[OF g ga l, of pad "[]" train_iter]
    by (simp add: Trainer_train_def Let_def)
qed

lemma sharded_calls_append [simp]:
  "sharded_calls (xs @ ys) = sharded_calls xs @ sharded_calls ys"
  by (induction xs rule: sharded_calls.induct) simp_all

lemma sharded_calls_window [simp]:
  "sharded_calls (window_events self nrm b t j) = [(b, j, t, shard_size self, nrm)]"
  by (simp add: window_events_def)

lemma sharded_calls_windows:
  "sharded_calls (concat (map (window_events self nrm b t) js))
     = map (\<lambda>j. (b, j, t, shard_size self, nrm)) js"
  by (induction js) simp_all

lemma py_range_ok: "step \<noteq> 0 \<Longrightarrow> \<exists>js. py_range a b step = Inr js"
  by (simp add: py_range_def)

lemma batches_events_ok:
  assumes "list_all (\<lambda>b. tgt b \<noteq> [] \<or> trunc_size self \<noteq> 0) bs"
  shows "snd (batches_events self nrm bs) = None \<and>
         sharded_calls (fst (batches_events self nrm bs))
           = concat (map (\<lambda>b. map (\<lambda>j. (b, j, trunc_of self b, shard_size self, nrm))
                                 (window_starts self b)) bs)"
  using assms
proof (induction bs)
  case Nil
  then show ?case by simp
next
  case (Cons b bs)
  then have nz: "trunc_of self b \<noteq> 0" by (auto simp: trunc_of_def)
  then obtain js where js: "py_range 0 (int (length (tgt b)) - 1) (trunc_of self b) = Inr js"
    using py_range_ok by blast
  have ws: "window_starts self b = js" using js by (simp add: window_starts_def)
  obtain es err where r: "batches_events self nrm bs = (es, err)"
    by (cases "batches_events self nrm bs")
  have ih: "err = None \<and> sharded_calls es
           = concat (map (\<lambda>b. map (\<lambda>j. (b, j, trunc_of self b, shard_size self, nrm))
                                 (window_starts self b)) bs)"
    using Cons r by simp
  have "batches_events self nrm (b # bs)
          = (concat (map (window_events self nrm b (trunc_of self b)) js) @ es, err)"
    using js r by (simp add: trunc_of_def Let_def)
  then show ?case using ih ws by (simp add: sharded_calls_windows)
qed

lemma gradient_accumulation_ok:
  assumes "list_all (\<lambda>b. tgt b \<noteq> [] \<or> trunc_size self \<noteq> 0) bs"
  shows "snd (gradient_accumulation self bs nrm) = None \<and>
         sharded_calls (fst (gradient_accumulation self bs nrm))
           = concat (map (\<lambda>b. map (\<lambda>j. (b, j, trunc_of self b, shard_size self, nrm))
                                 (window_starts self b)) bs)"
proof -
  obtain es err where r: "batches_events self nrm bs = (es, err)"
    by (cases "batches_events self nrm bs")
  with batches_events_ok[OF assms, of nrm] show ?thesis
    by (simp add: gradient_accumulation_def Let_def)
qed

lemma backward_values_calls:
  "backward_values crit now shards_of es =
     concat (map (\<lambda>(b, j, n, sh, nrm).
                    map (\<lambda>s. tensor_div (fst (crit s)) nrm) (shards_of b j n sh))
               (sharded_calls es))"
  by (simp add: backward_values_def sharded_compute_loss_def)

text \<open>
  Claim C4, as the code has it. Outside evaluation mode the sharded loss computation
  divides each shard's loss by the normalization constant it is given before it
  triggers backward, and in evaluation mode it triggers none. The constant that
  \<open>Trainer.train\<close> gives is summed over an accumulation group: the batches are cut into
  consecutive groups of \<open>grad_accum_count\<close> batches, the last group taking what is left,
  and each group is handed to \<open>_gradient_accumulation\<close> with the sum over its batches of
  the sentence count, or of the count of non-padding target tokens when the method is
  \<open>tokens\<close>; with a count of 1 that is the batch's own count. Every call of
  \<open>sharded_compute_loss\<close> for a batch of the group carries that sum, so every value
  backward is triggered on in the group is a shard's loss divided by it.
\<close>

theorem shard_loss_normalization:
  "snd (sharded_compute_loss evaluating crit now shards nrm) =
     (if evaluating then [] else map (\<lambda>s. tensor_div (fst (crit s)) nrm) shards) \<and>
   (0 < grad_accum_count self \<longrightarrow>
      Trainer_train self pad train_iter =
        map (\<lambda>grp. (grp, sum_list (map (norm_of self pad) grp)))
          (groups (nat (grad_accum_count self)) train_iter)) \<and>
   (grad_accum_count self = 1 \<longrightarrow>
      Trainer_train self pad train_iter = map (\<lambda>b. ([b], norm_of self pad b)) train_iter) \<and>
   (list_all (\<lambda>b. tgt b \<noteq> [] \<or> trunc_size self \<noteq> 0) bs \<longrightarrow>
      snd (gradient_accumulation self bs nrm) = None \<and>
      sharded_calls (fst (gradient_accumulation self bs nrm))
        = concat (map (\<lambda>b. map (\<lambda>j. (b, j, trunc_of self b, shard_size self, nrm))
                              (window_starts self b)) bs) \<and>
      backward_values crit now shards_of (fst (gradient_accumulation self bs nrm))
        = concat (map (\<lambda>b. concat (map (\<lambda>j.
              map (\<lambda>s. tensor_div (fst (crit s)) nrm)
                (shards_of b j (trunc_of self b) (shard_size self)))
              (window_starts self b))) bs))"
proof (intro conjI impI)
  show "snd (sharded_compute_loss evaluating crit now shards nrm) =
     (if evaluating then [] else map (\<lambda>s. tensor_div (fst (crit s)) nrm) shards)"
    by (simp add: sharded_compute_loss_def)
next
  assume "0 < grad_accum_count self"
  then show "Trainer_train self pad train_iter =
        map (\<lambda>grp. (grp, sum_list (map (norm_of self pad) grp)))
          (groups (nat (grad_accum_count self)) train_iter)"
    by (rule Trainer_train_groups)
next
  assume one: "grad_accum_count self = 1"
  then have "0 < grad_accum_count self" by simp
  from Trainer_train_groups[OF this, of pad train_iter]
  show "Trainer_train self pad train_iter = map (\<lambda>b. ([b], norm_of self pad b)) train_iter"
    using one by (simp add: groups_1 comp_def)
next
  assume a: "list_all (\<lambda>b. tgt b \<noteq> [] \<or> trunc_size self \<noteq> 0) bs"
  from gradient_accumulation_ok[OF a, of nrm]
  show "snd (gradient_accumulation self bs nrm) = None" by simp
next
  assume a: "list_all (\<lambda>b. tgt b \<noteq> [] \<or> trunc_size self \<noteq> 0) bs"
  from gradient_accumulation_ok[OF a, of nrm]
  show "sharded_calls (fst (gradient_accumulation self bs nrm))
        = concat (map (\<lambda>b. map (\<lambda>j. (b, j, trunc_of self b, shard_size self, nrm))
                              (window_starts self b)) bs)" by simp
next
  assume a: "list_all (\<lambda>b. tgt b \<noteq> [] \<or> trunc_size self \<noteq> 0) bs"
  have c: "sharded_calls (fst (gradient_accumulation self bs nrm))
        = concat (map (\<lambda>b. map (\<lambda>j. (b, j, trunc_of self b, shard_size self, nrm))
                              (window_starts self b)) bs)"
    using gradient_accumulation_ok[OF a, of nrm] by simp
  show "backward_values crit now shards_of (fst (gradient_accumulation self bs nrm))
        = concat (map (\<lambda>b. concat (map (\<lambda>j.
              map (\<lambda>s. tensor_div (fst (crit s)) nrm)
                (shards_of b j (trunc_of self b) (shard_size self)))
              (window_starts self b))) bs)"
    unfolding backward_values_calls c
    by (induction bs) (simp_all add: map_concat comp_def)
qed

theorem shard_loss_normalization_witness:
  "Trainer_train
     \<lparr>trunc_size = 0, shard_size = 32, data_type = ''text'', norm_method = ''sents'',
      grad_accum_count = 2, progress_step = 0, elmo = False\<rparr> 0
     [\<lparr>batch_size = 3, tgt = [[1, 1, 1], [4, 5, 6]]\<rparr>,
      \<lparr>batch_size = 5, tgt = [[1, 1, 1, 1, 1], [4, 5, 6, 7, 8]]\<rparr>,
      \<lparr>batch_size = 2, tgt = [[1, 1], [4, 5]]\<rparr>]
     = [([\<lparr>batch_size = 3, tgt = [[1, 1, 1], [4, 5, 6]]\<rparr>,
          \<lparr>batch_size = 5, tgt = [[1, 1, 1, 1, 1], [4, 5, 6, 7, 8]]\<rparr>], 8),
        ([\<lparr>batch_size = 2, tgt = [[1, 1], [4, 5]]\<rparr>], 2)] \<and>
   snd (gradient_accumulation
     \<lparr>trunc_size = 0, shard_size = 32, data_type = ''text'', norm_method = ''sents'',
      grad_accum_count = 2, progress_step = 0, elmo = False\<rparr>
     [\<lparr>batch_size = 3, tgt = [[1, 1, 1], [4, 5, 6]]\<rparr>,
      \<lparr>batch_size = 5, tgt = [[1, 1, 1, 1, 1], [4, 5, 6, 7, 8]]\<rparr>] 8) = None \<and>
   backward_values (\<lambda>s. (Finite 6, Statistics_init (Finite 6) 3 1 0)) 0
     (\<lambda>b j n sh. [(), ()])
     (fst (gradient_accumulation
        \<lparr>trunc_size = 0, shard_size = 32, data_type = ''text'', norm_method = ''sents'',
         grad_accum_count = 2, progress_step = 0, elmo = False\<rparr>
        [\<lparr>batch_size = 3, tgt = [[1, 1, 1], [4, 5, 6]]\<rparr>,
         \<lparr>batch_size = 5, tgt = [[1, 1, 1, 1, 1], [4, 5, 6, 7, 8]]\<rparr>] 8))
     = [Finite (3 / 4), Finite (3 / 4), Finite (3 / 4), Finite (3 / 4)]"
proof -
  let ?tr = "\<lparr>trunc_size = 0, shard_size = 32, data_type = ''text'', norm_method = ''sents'',
              grad_accum_count = 2, progress_step = 0, elmo = False\<rparr>"
  let ?b3 = "\<lparr>batch_size = 3, tgt = [[1, 1, 1], [4, 5, 6]]\<rparr>"
  let ?b5 = "\<lparr>batch_size = 5, tgt = [[1, 1, 1, 1, 1], [4, 5, 6, 7, 8]]\<rparr>"
  let ?b2 = "\<lparr>batch_size = 2, tgt = [[1, 1], [4, 5]]\<rparr>"
  let ?crit = "\<lambda>s::unit. (Finite 6, Statistics_init (Finite 6) 3 1 0)"
  let ?sh = "\<lambda>(b::Batch) (j::int) (n::int) (sh::int). [(), ()]"
  note t = shard_loss_normalization[of False ?crit 0 "[]" 8 ?tr 0 "[?b3, ?b5, ?b2]"
             "[?b3, ?b5]" ?sh]
  have g: "map (\<lambda>grp. (grp, sum_list (map (norm_of ?tr 0) grp)))
             (groups (nat (grad_accum_count ?tr)) [?b3, ?b5, ?b2])
           = [([?b3, ?b5], 8), ([?b2], 2)]"
    by code_simp
  have a: "Trainer_train ?tr 0 [?b3, ?b5, ?b2] = [([?b3, ?b5], 8), ([?b2], 2)]"
    using t g by simp
  have h: "list_all (\<lambda>b. tgt b \<noteq> [] \<or> trunc_size ?tr \<noteq> 0) [?b3, ?b5]" by simp
  have b: "snd (gradient_accumulation ?tr [?b3, ?b5] 8) = None" using t h by blast
  have v: "concat (map (\<lambda>b. concat (map (\<lambda>j.
              map (\<lambda>s. tensor_div (fst (?crit s)) 8)
                (?sh b j (trunc_of ?tr b) (shard_size ?tr)))
              (window_starts ?tr b))) [?b3, ?b5])
           = [Finite (3 / 4), Finite (3 / 4), Finite (3 / 4), Finite (3 / 4)]"
    by code_simp
  have c: "backward_values ?crit 0 ?sh (fst (gradient_accumulation ?tr [?b3, ?b5] 8))
           = [Finite (3 / 4), Finite (3 / 4), Finite (3 / 4), Finite (3 / 4)]"
    using t h v by simp
  show ?thesis using a b c by blast
qed

text \<open>
  The constant is not the count of the batch. With an accumulation count of 2 and
  batches of 3 and 5 sentences, the trainer hands the normalization 8 to the loss calls
  of both batches: a shard loss of 6 of the first batch is divided by 8, not by 3.
\<close>

theorem normalization_not_per_batch:
  "Trainer_train
     \<lparr>trunc_size = 0, shard_size = 32, data_type = ''text'', norm_method = ''sents'',
      grad_accum_count = 2, progress_step = 0, elmo = False\<rparr> 0
     [\<lparr>batch_size = 3, tgt = [[1, 1, 1], [4, 5, 6]]\<rparr>,
      \<lparr>batch_size = 5, tgt = [[1, 1, 1, 1, 1], [4, 5, 6, 7, 8]]\<rparr>]
     = [([\<lparr>batch_size = 3, tgt = [[1, 1, 1], [4, 5, 6]]\<rparr>,
          \<lparr>batch_size = 5, tgt = [[1, 1, 1, 1, 1], [4, 5, 6, 7, 8]]\<rparr>], 8)] \<and>
   sharded_calls (fst (gradient_accumulation
     \<lparr>trunc_size = 0, shard_size = 32, data_type = ''text'', norm_method = ''sents'',
      grad_accum_count = 2, progress_step = 0, elmo = False\<rparr>
     [\<lparr>batch_size = 3, tgt = [[1, 1, 1], [4, 5, 6]]\<rparr>,
      \<lparr>batch_size = 5, tgt = [[1, 1, 1, 1, 1], [4, 5, 6, 7, 8]]\<rparr>] 8))
     = [(\<lparr>batch_size = 3, tgt = [[1, 1, 1], [4, 5, 6]]\<rparr>, 0, 2, 32, 8),
        (\<lparr>batch_size = 5, tgt = [[1, 1, 1, 1, 1], [4, 5, 6, 7, 8]]\<rparr>, 0, 2, 32, 8)] \<and>
   norm_of
     \<lparr>trunc_size = 0, shard_size = 32, data_type = ''text'', norm_method = ''sents'',
      grad_accum_count = 2, progress_step = 0, elmo = False\<rparr> 0
     \<lparr>batch_size = 3, tgt = [[1, 1, 1], [4, 5, 6]]\<rparr> = 3 \<and>
   snd (sharded_compute_loss False (\<lambda>s. (Finite 6, Statistics_init (Finite 6) 3 1 0)) 0
          [()] 8) = [Finite (3 / 4)] \<and>
   snd (sharded_compute_loss False (\<lambda>s. (Finite 6, Statistics_init (Finite 6) 3 1 0)) 0
          [()] 3) = [Finite 2]"
  by code_simp

end
